theory Spec2Isabelle
  imports Complex_Main
begin

section \<open>One-qubit circuits\<close>

text \<open>
  Both programs build circuits with \<^verbatim>\<open>QuantumCircuit(1, 1)\<close> and only ever append
  \<^verbatim>\<open>x(0)\<close>, \<^verbatim>\<open>h(0)\<close> and \<^verbatim>\<open>barrier()\<close> to them before a final \<^verbatim>\<open>measure(0, 0)\<close>
  that is put on a copy. A stored circuit is therefore the list of its gates, in the
  order they were appended.
\<close>

datatype gate = XGate | HGate | Barrier

type_synonym circuit = "gate list"

section \<open>The sources of randomness\<close>

text \<open>
  The programs read two sources of randomness. One is the global generator of Python's
  \<^verbatim>\<open>random\<close> module (\<^verbatim>\<open>random.randint(0, 1)\<close>, \<^verbatim>\<open>random.choice(['Z', 'X'])\<close>): the
  tape \<open>coin\<close> of the outcomes of its successive calls, with the number of calls made so
  far. The other is the simulator backend of Qiskit, which is not part of the repository
  and computes in floating point: what it reports is taken as given. \<open>backend k qc\<close> is the
  bit in the memory of its \<open>k\<close>-th execution when that execution is one shot of the circuit
  \<open>qc\<close> followed by the measurement; \<open>backend_pos\<close> counts the executions made so far.
  Nothing is assumed about how the reported bit depends on the circuit.
\<close>

record rng =
  coin :: "nat \<Rightarrow> bool"
  coin_pos :: nat
  backend :: "nat \<Rightarrow> circuit \<Rightarrow> bool"
  backend_pos :: nat

definition next_coin :: "rng \<Rightarrow> bool \<times> rng" where
  "next_coin r = (coin r (coin_pos r), r\<lparr>coin_pos := coin_pos r + 1\<rparr>)"

definition randint01 :: "rng \<Rightarrow> int \<times> rng" where
  "randint01 r = (let (c, r') = next_coin r in (if c then 1 else 0, r'))"

definition choice_ZX :: "rng \<Rightarrow> string \<times> rng" where
  "choice_ZX r = (let (c, r') = next_coin r in (if c then ''X'' else ''Z'', r'))"

text \<open>
  \<^verbatim>\<open>qc.measure(0, 0); execute(qc, backend, shots=1, memory=True)\<close> followed by
  \<^verbatim>\<open>int(job.result().get_memory()[0])\<close>: one execution of the backend, whose memory
  holds \<^verbatim>\<open>'0'\<close> or \<^verbatim>\<open>'1'\<close> for the one classical bit.
\<close>

definition execute_shot :: "circuit \<Rightarrow> rng \<Rightarrow> int \<times> rng" where
  "execute_shot qc r =
     (if backend r (backend_pos r) qc then 1 else 0, r\<lparr>backend_pos := backend_pos r + 1\<rparr>)"

text \<open>\<^verbatim>\<open>[f() for _ in range(n)]\<close>: \<open>n\<close> successive draws, in order.\<close>

fun draw_many :: "(rng \<Rightarrow> 'a \<times> rng) \<Rightarrow> nat \<Rightarrow> rng \<Rightarrow> 'a list \<times> rng" where
  "draw_many f 0 r = ([], r)"
| "draw_many f (Suc n) r =
     (let (v, r') = f r; (vs, r'') = draw_many f n r' in (v # vs, r''))"

section \<open>The protocol functions of app.py\<close>

datatype error = IndexError | ZeroDivisionError

text \<open>\<^verbatim>\<open>range(n)\<close> is empty for \<open>n \<le> 0\<close>, so \<open>nat n\<close> draws are made.\<close>

definition create_bits_bases :: "int \<Rightarrow> rng \<Rightarrow> (int list \<times> string list) \<times> rng" where
  "create_bits_bases n r =
     (let (bits, r1) = draw_many randint01 (nat n) r;
          (bases, r2) = draw_many choice_ZX (nat n) r1
      in ((bits, bases), r2))"

definition encode_one :: "int \<Rightarrow> string \<Rightarrow> circuit" where
  "encode_one bt base =
     (if bt = 1 then [XGate] else []) @ (if base = ''X'' then [HGate] else [])"

definition encode_qubits :: "int list \<Rightarrow> string list \<Rightarrow> circuit list" where
  "encode_qubits bits bases = map (\<lambda>(bt, base). encode_one bt base) (zip bits bases)"

text \<open>
  \<^verbatim>\<open>measure_qubits\<close>: the loop over \<^verbatim>\<open>enumerate(circuits)\<close>, with the index, the
  list of results so far and the generator as loop state. \<^verbatim>\<open>bob_bases[i]\<close> raises
  when the list of bases is shorter than the list of circuits.
\<close>

fun measure_loop ::
  "circuit list \<Rightarrow> nat \<Rightarrow> string list \<Rightarrow> int list \<Rightarrow> rng \<Rightarrow> error + (int list \<times> rng)" where
  "measure_loop [] i bob_bases results r = Inr (results, r)"
| "measure_loop (qc # qcs) i bob_bases results r =
     (if i < length bob_bases then
        (let new_qc = qc @ (if bob_bases ! i = ''X'' then [HGate] else []);
             (result, r') = execute_shot new_qc r
         in measure_loop qcs (i + 1) bob_bases (results @ [result]) r')
      else Inl IndexError)"

definition measure_qubits :: "circuit list \<Rightarrow> string list \<Rightarrow> rng \<Rightarrow> error + (int list \<times> rng)" where
  "measure_qubits circuits bob_bases r = measure_loop circuits 0 bob_bases [] r"

text \<open>
  \<^verbatim>\<open>eve_intercept\<close> of app.py: one basis per circuit is drawn first; then, per circuit,
  the copy gets Eve's change of basis and the measurement, one shot is executed, and a
  new circuit is built from the result and Eve's basis.
\<close>

fun eve_loop ::
  "circuit list \<Rightarrow> nat \<Rightarrow> string list \<Rightarrow> circuit list \<Rightarrow> rng \<Rightarrow> error + (circuit list \<times> rng)" where
  "eve_loop [] i eve_bases new_circuits r = Inr (new_circuits, r)"
| "eve_loop (qc # qcs) i eve_bases new_circuits r =
     (if i < length eve_bases then
        (let eve_circuit = qc @ (if eve_bases ! i = ''X'' then [HGate] else []);
             (result, r') = execute_shot eve_circuit r;
             re_qc = (if result = 1 then [XGate] else [])
                       @ (if eve_bases ! i = ''X'' then [HGate] else [])
         in eve_loop qcs (i + 1) eve_bases (new_circuits @ [re_qc]) r')
      else Inl IndexError)"

definition eve_intercept :: "circuit list \<Rightarrow> rng \<Rightarrow> error + (circuit list \<times> rng)" where
  "eve_intercept circuits r =
     (let (eve_bases, r1) = draw_many choice_ZX (length circuits) r
      in eve_loop circuits 0 eve_bases [] r1)"

text \<open>
  \<^verbatim>\<open>sift_keys\<close> of app.py: the loop over \<^verbatim>\<open>range(len(alice_bits))\<close>, with the two
  lists built so far as loop state. Every subscript raises when it is out of range.
\<close>

fun sift_loop ::
  "nat list \<Rightarrow> string list \<Rightarrow> string list \<Rightarrow> int list \<Rightarrow> int list
     \<Rightarrow> int list \<Rightarrow> int list \<Rightarrow> error + (int list \<times> int list)" where
  "sift_loop [] a_bases b_bases a_bits b_bits sifted_a sifted_b = Inr (sifted_a, sifted_b)"
| "sift_loop (i # rest) a_bases b_bases a_bits b_bits sifted_a sifted_b =
     (if i < length a_bases \<and> i < length b_bases then
        (if a_bases ! i = b_bases ! i then
           (if i < length a_bits \<and> i < length b_bits then
              sift_loop rest a_bases b_bases a_bits b_bits
                (sifted_a @ [a_bits ! i]) (sifted_b @ [b_bits ! i])
            else Inl IndexError)
         else sift_loop rest a_bases b_bases a_bits b_bits sifted_a sifted_b)
      else Inl IndexError)"

definition sift_keys ::
  "string list \<Rightarrow> string list \<Rightarrow> int list \<Rightarrow> int list \<Rightarrow> error + (int list \<times> int list)" where
  "sift_keys a_bases b_bases a_bits b_bits =
     sift_loop [0..<length a_bits] a_bases b_bases a_bits b_bits [] []"

text \<open>Python's \<^verbatim>\<open>/\<close> on two integers: the quotient as a number, or the exception.\<close>

definition truediv :: "int \<Rightarrow> int \<Rightarrow> error + real" where
  "truediv a b = (if b = 0 then Inl ZeroDivisionError else Inr (real_of_int a / real_of_int b))"

text \<open>
  \<^verbatim>\<open>calculate_qber\<close> (the same in both files):
  \<^verbatim>\<open>errors = sum(a != b for a, b in zip(key_a, key_b))\<close>, then
  \<^verbatim>\<open>errors / len(key_a) if key_a else 0.0\<close>. The quotient is the exact one.
\<close>

definition calculate_qber :: "int list \<Rightarrow> int list \<Rightarrow> error + real" where
  "calculate_qber key_a key_b =
     (let errors = sum_list (map (\<lambda>(a, b). if a \<noteq> b then (1::int) else 0) (zip key_a key_b))
      in if key_a \<noteq> [] then truediv errors (int (length key_a)) else Inr 0)"

text \<open>
  The last branch of the handler and of \<^verbatim>\<open>main\<close>: \<^verbatim>\<open>if qber > 0.15\<close> reports possible
  eavesdropping, the \<^verbatim>\<open>else\<close> branch reports a communication that is likely secure.
\<close>

datatype verdict = EavesdroppingSuspected | SecureLikely

definition classify :: "real \<Rightarrow> verdict" where
  "classify qber = (if qber > 0.15 then EavesdroppingSuspected else SecureLikely)"

text \<open>
  The handler of the button "Run Simulation" in app.py, from the draw of Alice's bits to
  the branch on the error rate; the values it computes are collected in a record.
\<close>

record outcome =
  out_alice_bits :: "int list"
  out_alice_bases :: "string list"
  out_bob_bases :: "string list"
  out_bob_results :: "int list"
  out_key_a :: "int list"
  out_key_b :: "int list"
  out_qber :: real
  out_verdict :: verdict

definition run_simulation :: "int \<Rightarrow> bool \<Rightarrow> rng \<Rightarrow> error + (outcome \<times> rng)" where
  "run_simulation n eve_present r =
     (let ((a_bits, a_bases), r1) = create_bits_bases n r;
          (b_bases, r2) = draw_many choice_ZX (nat n) r1;
          encoded = encode_qubits a_bits a_bases
      in case (if eve_present then eve_intercept encoded r2 else Inr (encoded, r2)) of
           Inl e \<Rightarrow> Inl e
         | Inr (intercepted, r3) \<Rightarrow>
        (case measure_qubits intercepted b_bases r3 of
           Inl e \<Rightarrow> Inl e
         | Inr (b_results, r4) \<Rightarrow>
        (case sift_keys a_bases b_bases a_bits b_results of
           Inl e \<Rightarrow> Inl e
         | Inr (key_a, key_b) \<Rightarrow>
        (case calculate_qber key_a key_b of
           Inl e \<Rightarrow> Inl e
         | Inr qber \<Rightarrow>
             Inr (\<lparr>out_alice_bits = a_bits, out_alice_bases = a_bases,
                   out_bob_bases = b_bases, out_bob_results = b_results,
                   out_key_a = key_a, out_key_b = key_b,
                   out_qber = qber, out_verdict = classify qber\<rparr>, r4)))))"

section \<open>The standalone script bb84\_qkd\_simulation.py\<close>

text \<open>
  \<^verbatim>\<open>create_alice_bits\<close>, \<^verbatim>\<open>encode_qubits\<close>, \<^verbatim>\<open>measure_qubits\<close> and
  \<^verbatim>\<open>calculate_qber\<close> of the script are those of app.py. Its \<^verbatim>\<open>eve_intercept\<close> puts a
  barrier on the copy and also returns Eve's bases; its \<^verbatim>\<open>sift_keys\<close> also returns
  the indices kept; its \<^verbatim>\<open>main\<close> always runs Eve, on 100 qubits, and draws Bob's bases
  after her pass.
\<close>

definition create_alice_bits :: "int \<Rightarrow> rng \<Rightarrow> (int list \<times> string list) \<times> rng" where
  "create_alice_bits n r =
     (let (bits, r1) = draw_many randint01 (nat n) r;
          (bases, r2) = draw_many choice_ZX (nat n) r1
      in ((bits, bases), r2))"

fun eve_loop_script ::
  "circuit list \<Rightarrow> nat \<Rightarrow> string list \<Rightarrow> circuit list \<Rightarrow> rng \<Rightarrow> error + (circuit list \<times> rng)" where
  "eve_loop_script [] i eve_bases new_circuits r = Inr (new_circuits, r)"
| "eve_loop_script (qc # qcs) i eve_bases new_circuits r =
     (if i < length eve_bases then
        (let new_qc = qc @ [Barrier] @ (if eve_bases ! i = ''X'' then [HGate] else []);
             (result, r') = execute_shot new_qc r;
             eve_qc = (if result = 1 then [XGate] else [])
                        @ (if eve_bases ! i = ''X'' then [HGate] else [])
         in eve_loop_script qcs (i + 1) eve_bases (new_circuits @ [eve_qc]) r')
      else Inl IndexError)"

definition eve_intercept_script ::
  "circuit list \<Rightarrow> rng \<Rightarrow> error + ((circuit list \<times> string list) \<times> rng)" where
  "eve_intercept_script circuits r =
     (let (eve_bases, r1) = draw_many choice_ZX (length circuits) r
      in case eve_loop_script circuits 0 eve_bases [] r1 of
           Inl e \<Rightarrow> Inl e
         | Inr (new_circuits, r2) \<Rightarrow> Inr ((new_circuits, eve_bases), r2))"

fun sift_loop_script ::
  "nat list \<Rightarrow> string list \<Rightarrow> string list \<Rightarrow> int list \<Rightarrow> int list
     \<Rightarrow> int list \<Rightarrow> int list \<Rightarrow> nat list \<Rightarrow> error + (int list \<times> int list \<times> nat list)" where
  "sift_loop_script [] a_bases b_bases a_bits b_bits sifted_alice sifted_bob indices =
     Inr (sifted_alice, sifted_bob, indices)"
| "sift_loop_script (i # rest) a_bases b_bases a_bits b_bits sifted_alice sifted_bob indices =
     (if i < length a_bases \<and> i < length b_bases then
        (if a_bases ! i = b_bases ! i then
           (if i < length a_bits \<and> i < length b_bits then
              sift_loop_script rest a_bases b_bases a_bits b_bits
                (sifted_alice @ [a_bits ! i]) (sifted_bob @ [b_bits ! i]) (indices @ [i])
            else Inl IndexError)
         else sift_loop_script rest a_bases b_bases a_bits b_bits sifted_alice sifted_bob indices)
      else Inl IndexError)"

definition sift_keys_script ::
  "string list \<Rightarrow> string list \<Rightarrow> int list \<Rightarrow> int list
     \<Rightarrow> error + (int list \<times> int list \<times> nat list)" where
  "sift_keys_script a_bases b_bases a_bits b_bits =
     sift_loop_script [0..<length a_bits] a_bases b_bases a_bits b_bits [] [] []"

definition main_script :: "rng \<Rightarrow> error + (outcome \<times> rng)" where
  "main_script r =
     (let n = 100;
          ((a_bits, a_bases), r1) = create_alice_bits n r;
          circuits = encode_qubits a_bits a_bases
      in case eve_intercept_script circuits r1 of
           Inl e \<Rightarrow> Inl e
         | Inr ((eve_circuits, eve_bases), r2) \<Rightarrow>
        (let (b_bases, r3) = draw_many choice_ZX (nat n) r2
         in case measure_qubits eve_circuits b_bases r3 of
           Inl e \<Rightarrow> Inl e
         | Inr (b_results, r4) \<Rightarrow>
        (case sift_keys_script a_bases b_bases a_bits b_results of
           Inl e \<Rightarrow> Inl e
         | Inr (alice_key, bob_key, indices) \<Rightarrow>
        (case calculate_qber alice_key bob_key of
           Inl e \<Rightarrow> Inl e
         | Inr qber \<Rightarrow>
             Inr (\<lparr>out_alice_bits = a_bits, out_alice_bases = a_bases,
                   out_bob_bases = b_bases, out_bob_results = b_results,
                   out_key_a = alice_key, out_key_b = bob_key,
                   out_qber = qber, out_verdict = classify qber\<rparr>, r4)))))"

section \<open>What the claims speak of\<close>

text \<open>
  The trials that sifting is said to keep: the indices, in increasing order, at which the
  sender's basis equals the receiver's.
\<close>

definition kept_trials :: "string list \<Rightarrow> string list \<Rightarrow> nat list" where
  "kept_trials a_bases b_bases = filter (\<lambda>i. a_bases ! i = b_bases ! i) [0..<length a_bases]"

text \<open>The number of positions at which two keys disagree.\<close>

definition error_count :: "int list \<Rightarrow> int list \<Rightarrow> nat" where
  "error_count key_a key_b = length (filter (\<lambda>(a, b). a \<noteq> b) (zip key_a key_b))"

text \<open>
  The bases the eavesdropper draws for \<open>n\<close> qubits from where the generator stands, and
  the bits she measures: qubit \<open>k\<close> in her \<open>k\<close>-th basis, by the \<open>k\<close>-th coming execution of
  the backend. In the script the measured copy also carries the barrier.
\<close>

definition eve_bases_of :: "rng \<Rightarrow> nat \<Rightarrow> string list" where
  "eve_bases_of r n = map (\<lambda>k. if coin r (coin_pos r + k) then ''X'' else ''Z'') [0..<n]"

definition eve_results_of :: "circuit list \<Rightarrow> rng \<Rightarrow> int list" where
  "eve_results_of circuits r =
     map (\<lambda>k. if backend r (backend_pos r + k)
                    (circuits ! k
                       @ (if eve_bases_of r (length circuits) ! k = ''X'' then [HGate] else []))
              then 1 else 0)
       [0..<length circuits]"

definition eve_results_of_script :: "circuit list \<Rightarrow> rng \<Rightarrow> int list" where
  "eve_results_of_script circuits r =
     map (\<lambda>k. if backend r (backend_pos r + k)
                    (circuits ! k @ [Barrier]
                       @ (if eve_bases_of r (length circuits) ! k = ''X'' then [HGate] else []))
              then 1 else 0)
       [0..<length circuits]"

text \<open>
  Two generator states have the same coins when, from where each stands, every coming
  call of Python's generator returns the same value in both: two runs that start from
  the same seed of \<^verbatim>\<open>random\<close> are such a pair. They have the same shots when every coming
  execution of the backend reports the same bit in both, on every circuit.
\<close>

definition same_coins :: "rng \<Rightarrow> rng \<Rightarrow> bool" where
  "same_coins r r' = (\<forall>k. coin r (coin_pos r + k) = coin r' (coin_pos r' + k))"

definition same_shots :: "rng \<Rightarrow> rng \<Rightarrow> bool" where
  "same_shots r r' =
     (\<forall>k qc. backend r (backend_pos r + k) qc = backend r' (backend_pos r' + k) qc)"

section \<open>Sifting and the error rate\<close>

lemma sift_loop_eq:
  assumes "\<forall>i\<in>set idxs. i < length a_bases \<and> i < length b_bases \<and> i < length a_bits \<and> i < length b_bits"
  shows "sift_loop idxs a_bases b_bases a_bits b_bits sifted_a sifted_b
           = Inr (sifted_a @ map (\<lambda>i. a_bits ! i) (filter (\<lambda>i. a_bases ! i = b_bases ! i) idxs),
                  sifted_b @ map (\<lambda>i. b_bits ! i) (filter (\<lambda>i. a_bases ! i = b_bases ! i) idxs))"
  using assms by (induction idxs arbitrary: sifted_a sifted_b) simp_all

lemma sift_loop_script_eq:
  assumes "\<forall>i\<in>set idxs. i < length a_bases \<and> i < length b_bases \<and> i < length a_bits \<and> i < length b_bits"
  shows "sift_loop_script idxs a_bases b_bases a_bits b_bits sifted_a sifted_b indices
           = Inr (sifted_a @ map (\<lambda>i. a_bits ! i) (filter (\<lambda>i. a_bases ! i = b_bases ! i) idxs),
                  sifted_b @ map (\<lambda>i. b_bits ! i) (filter (\<lambda>i. a_bases ! i = b_bases ! i) idxs),
                  indices @ filter (\<lambda>i. a_bases ! i = b_bases ! i) idxs)"
  using assms by (induction idxs arbitrary: sifted_a sifted_b indices) simp_all

lemma sift_keys_eq:
  assumes "length a_bases = length a_bits" "length b_bases = length a_bits" "length b_bits = length a_bits"
  shows "sift_keys a_bases b_bases a_bits b_bits
           = Inr (map (\<lambda>i. a_bits ! i) (kept_trials a_bases b_bases),
                  map (\<lambda>i. b_bits ! i) (kept_trials a_bases b_bases))"
  unfolding sift_keys_def kept_trials_def
  using assms by (subst sift_loop_eq) simp_all

lemma sift_keys_script_eq:
  assumes "length a_bases = length a_bits" "length b_bases = length a_bits" "length b_bits = length a_bits"
  shows "sift_keys_script a_bases b_bases a_bits b_bits
           = Inr (map (\<lambda>i. a_bits ! i) (kept_trials a_bases b_bases),
                  map (\<lambda>i. b_bits ! i) (kept_trials a_bases b_bases),
                  kept_trials a_bases b_bases)"
  unfolding sift_keys_script_def kept_trials_def
  using assms by (subst sift_loop_script_eq) simp_all

lemma errors_sum_eq:
  "sum_list (map (\<lambda>(a, b). if a \<noteq> b then (1::int) else 0) ps) = int (length (filter (\<lambda>(a, b). a \<noteq> b) ps))"
  by (induction ps) auto

lemma calculate_qber_eq:
  "calculate_qber key_a key_b
     = Inr (if key_a \<noteq> [] then real (error_count key_a key_b) / real (length key_a) else 0)"
  by (simp add: calculate_qber_def truediv_def errors_sum_eq error_count_def)

lemma error_count_le: "error_count key_a key_b \<le> length key_a"
  unfolding error_count_def
  by (rule order_trans[OF length_filter_le]) simp

text \<open>
  In the handler of app.py the bits and the bases of the two parties are drawn before the
  eavesdropper's pass: with and without her they are the same, and so are the trials kept.
\<close>

lemma run_bases_without_eve:
  assumes "run_simulation n True r = Inr (o1, r1)" and "run_simulation n False r = Inr (o2, r2)"
  shows "out_alice_bases o1 = out_alice_bases o2 \<and> out_bob_bases o1 = out_bob_bases o2
         \<and> out_alice_bits o1 = out_alice_bits o2"
  using assms unfolding run_simulation_def
  by (auto simp: Let_def split: prod.splits sum.splits)

lemma sorted_kept: "sorted_wrt (<) (kept_trials a b)"
  unfolding kept_trials_def by (rule sorted_wrt_filter) simp

text \<open>
  Claim C2. On lists of equal length, \<^verbatim>\<open>sift_keys\<close> (of both files) returns the sender's
  and the receiver's bits at exactly the trials where the two bases are equal: a trial is
  kept if and only if the sender's basis equals the receiver's, the kept trials come in
  increasing order (the order of the trials), and there are at most as many as trials.
  The kept trials are computed from the two lists of bases alone: neither the bits nor
  any choice of the eavesdropper enters, and whatever bits the receiver has measured,
  after her pass or without it, the same trials are kept.
\<close>

theorem sifting_correctness:
  assumes "length a_bases = length a_bits" and "length b_bases = length a_bits"
    and "length b_bits = length a_bits"
  shows "sift_keys a_bases b_bases a_bits b_bits
           = Inr (map (\<lambda>i. a_bits ! i) (kept_trials a_bases b_bases),
                  map (\<lambda>i. b_bits ! i) (kept_trials a_bases b_bases))
         \<and> sift_keys_script a_bases b_bases a_bits b_bits
           = Inr (map (\<lambda>i. a_bits ! i) (kept_trials a_bases b_bases),
                  map (\<lambda>i. b_bits ! i) (kept_trials a_bases b_bases),
                  kept_trials a_bases b_bases)
         \<and> (\<forall>i < length a_bits.
               (i \<in> set (kept_trials a_bases b_bases)) = (a_bases ! i = b_bases ! i))
         \<and> set (kept_trials a_bases b_bases) \<subseteq> {0..<length a_bits}
         \<and> sorted_wrt (<) (kept_trials a_bases b_bases)
         \<and> length (kept_trials a_bases b_bases) \<le> length a_bits
         \<and> (\<forall>b_bits'. length b_bits' = length a_bits \<longrightarrow>
               (\<exists>key_a key_b. sift_keys_script a_bases b_bases a_bits b_bits'
                  = Inr (key_a, key_b, kept_trials a_bases b_bases)))"
proof -
  have "\<forall>b_bits'. length b_bits' = length a_bits \<longrightarrow>
               (\<exists>key_a key_b. sift_keys_script a_bases b_bases a_bits b_bits'
                  = Inr (key_a, key_b, kept_trials a_bases b_bases))"
    using sift_keys_script_eq[OF assms(1,2)] by simp
  moreover
  have "\<forall>i < length a_bits. (i \<in> set (kept_trials a_bases b_bases)) = (a_bases ! i = b_bases ! i)"
    using assms(1) by (simp add: kept_trials_def)
  moreover have "set (kept_trials a_bases b_bases) \<subseteq> {0..<length a_bits}"
    using assms(1) by (auto simp: kept_trials_def)
  moreover have "length (kept_trials a_bases b_bases) \<le> length a_bits"
    using assms(1) length_filter_le[of _ "[0..<length a_bases]"] by (simp add: kept_trials_def)
  ultimately show ?thesis
    using sift_keys_eq[OF assms] sift_keys_script_eq[OF assms] sorted_kept by simp
qed

text \<open>The theorem at four trials, the bases being equal at the first and the third.\<close>

theorem sifting_correctness_witness:
  "sift_keys [''Z'', ''Z'', ''X'', ''X''] [''Z'', ''X'', ''X'', ''Z''] [0, 1, 1, 0] [0, 0, 1, 1]
     = Inr ([0, 1], [0, 1])
   \<and> sift_keys_script [''Z'', ''Z'', ''X'', ''X''] [''Z'', ''X'', ''X'', ''Z''] [0, 1, 1, 0] [0, 0, 1, 1]
     = Inr ([0, 1], [0, 1], [0, 2])
   \<and> kept_trials [''Z'', ''Z'', ''X'', ''X''] [''Z'', ''X'', ''X'', ''Z''] = [0, 2]"
proof -
  have k: "kept_trials [''Z'', ''Z'', ''X'', ''X''] [''Z'', ''X'', ''X'', ''Z''] = [0, 2]"
    by (simp add: kept_trials_def upt_rec)
  show ?thesis
    using sifting_correctness
      [of "[''Z'', ''Z'', ''X'', ''X'']" "[0, 1, 1, 0]" "[''Z'', ''X'', ''X'', ''Z'']" "[0, 0, 1, 1]"]
    by (simp add: k)
qed

text \<open>
  Claim C3. \<^verbatim>\<open>calculate_qber\<close> never raises: it returns the number of positions where
  the keys disagree divided by the length of the first key when that key is not empty,
  and 0 when it is empty; the value lies between 0 and 1.
\<close>

theorem qber_postcondition:
  "calculate_qber key_a key_b
     = Inr (if key_a \<noteq> [] then real (error_count key_a key_b) / real (length key_a) else 0)
   \<and> calculate_qber [] key_b = Inr 0
   \<and> (\<exists>q. calculate_qber key_a key_b = Inr q \<and> 0 \<le> q \<and> q \<le> 1)"
proof -
  have "real (error_count key_a key_b) / real (length key_a) \<le> 1" if "key_a \<noteq> []"
    using that error_count_le[of key_a key_b] by simp
  then show ?thesis
    by (simp add: calculate_qber_eq)
qed

text \<open>
  Claim C10. On lists of equal length the two keys returned by \<^verbatim>\<open>sift_keys\<close> have the
  same length, and so has the list of indices the script returns; so \<^verbatim>\<open>zip\<close> in
  \<^verbatim>\<open>calculate_qber\<close> pairs every bit of the first key, and the denominator of the rate is
  the number of pairs compared.
\<close>

theorem sifted_keys_same_length:
  assumes "length a_bases = length a_bits" and "length b_bases = length a_bits"
    and "length b_bits = length a_bits"
  shows "\<exists>key_a key_b indices.
           sift_keys a_bases b_bases a_bits b_bits = Inr (key_a, key_b)
         \<and> sift_keys_script a_bases b_bases a_bits b_bits = Inr (key_a, key_b, indices)
         \<and> length key_a = length key_b \<and> length indices = length key_a
         \<and> length (zip key_a key_b) = length key_a
         \<and> calculate_qber key_a key_b
             = Inr (if key_a \<noteq> [] then real (error_count key_a key_b) / real (length (zip key_a key_b))
                    else 0)"
  using sift_keys_eq[OF assms] sift_keys_script_eq[OF assms]
  by (simp add: calculate_qber_eq)

text \<open>The theorem at three trials, two of them kept, one with an error.\<close>

theorem sifted_keys_same_length_witness:
  "\<exists>key_a key_b indices.
     sift_keys [''Z'', ''X'', ''X''] [''Z'', ''X'', ''Z''] [0, 1, 1] [0, 0, 1] = Inr (key_a, key_b)
   \<and> sift_keys_script [''Z'', ''X'', ''X''] [''Z'', ''X'', ''Z''] [0, 1, 1] [0, 0, 1]
       = Inr (key_a, key_b, indices)
   \<and> length key_a = length key_b \<and> length indices = length key_a
   \<and> length (zip key_a key_b) = length key_a
   \<and> calculate_qber key_a key_b
       = Inr (if key_a \<noteq> [] then real (error_count key_a key_b) / real (length (zip key_a key_b))
              else 0)"
  using sifted_keys_same_length
    [of "[''Z'', ''X'', ''X'']" "[0, 1, 1]" "[''Z'', ''X'', ''Z'']" "[0, 0, 1]"]
  by simp

section \<open>The loops in closed form\<close>

lemma randint01_step:
  "randint01 r = (if coin r (coin_pos r) then 1 else 0, r\<lparr>coin_pos := coin_pos r + 1\<rparr>)"
  by (simp add: randint01_def next_coin_def)

lemma choice_ZX_step:
  "choice_ZX r = (if coin r (coin_pos r) then ''X'' else ''Z'', r\<lparr>coin_pos := coin_pos r + 1\<rparr>)"
  by (simp add: choice_ZX_def next_coin_def)

lemma draw_many_coin:
  assumes "\<And>r. f r = (g (coin r (coin_pos r)), r\<lparr>coin_pos := coin_pos r + 1\<rparr>)"
  shows "draw_many f n r
           = (map (\<lambda>k. g (coin r (coin_pos r + k))) [0..<n], r\<lparr>coin_pos := coin_pos r + n\<rparr>)"
proof (induction n arbitrary: r)
  case 0
  then show ?case by simp
next
  case (Suc n)
  have "draw_many f (Suc n) r
          = (g (coin r (coin_pos r)) # fst (draw_many f n (r\<lparr>coin_pos := coin_pos r + 1\<rparr>)),
             snd (draw_many f n (r\<lparr>coin_pos := coin_pos r + 1\<rparr>)))"
    by (subst draw_many.simps, subst assms) (simp only: Let_def prod.case case_prod_beta fst_conv snd_conv)
  then show ?case
    by (simp only: Suc.IH) (simp add: map_upt_Suc del: upt_Suc)
qed

lemma draw_many_randint01:
  "draw_many randint01 n r
     = (map (\<lambda>k. if coin r (coin_pos r + k) then 1 else 0) [0..<n], r\<lparr>coin_pos := coin_pos r + n\<rparr>)"
  by (rule draw_many_coin) (rule randint01_step)

lemma draw_many_choice_ZX:
  "draw_many choice_ZX n r
     = (map (\<lambda>k. if coin r (coin_pos r + k) then ''X'' else ''Z'') [0..<n],
        r\<lparr>coin_pos := coin_pos r + n\<rparr>)"
  by (rule draw_many_coin) (rule choice_ZX_step)

lemma measure_loop_eq:
  assumes "i + length qcs \<le> length bob_bases"
  shows "measure_loop qcs i bob_bases results r
           = Inr (results @ map (\<lambda>k. if backend r (backend_pos r + k)
                                         (qcs ! k @ (if bob_bases ! (i + k) = ''X'' then [HGate] else []))
                                      then 1 else 0) [0..<length qcs],
                  r\<lparr>backend_pos := backend_pos r + length qcs\<rparr>)"
  using assms
proof (induction qcs arbitrary: i results r)
  case Nil
  then show ?case by simp
next
  case (Cons qc qcs)
  then have "Suc i + length qcs \<le> length bob_bases" by simp
  note ih = Cons.IH[OF this]
  from Cons.prems have "i < length bob_bases" by simp
  then show ?case
    by (simp add: ih execute_shot_def map_upt_Suc del: upt_Suc)
qed

lemma eve_loop_eq:
  assumes "i + length qcs \<le> length eve_bases"
  shows "eve_loop qcs i eve_bases new_circuits r
           = Inr (new_circuits @ map (\<lambda>k. encode_one
                     (if backend r (backend_pos r + k)
                           (qcs ! k @ (if eve_bases ! (i + k) = ''X'' then [HGate] else []))
                      then 1 else 0)
                     (eve_bases ! (i + k))) [0..<length qcs],
                  r\<lparr>backend_pos := backend_pos r + length qcs\<rparr>)"
  using assms
proof (induction qcs arbitrary: i new_circuits r)
  case Nil
  then show ?case by simp
next
  case (Cons qc qcs)
  then have "Suc i + length qcs \<le> length eve_bases" by simp
  note ih = Cons.IH[OF this]
  from Cons.prems have "i < length eve_bases" by simp
  then show ?case
    by (simp add: ih execute_shot_def encode_one_def map_upt_Suc del: upt_Suc)
qed

lemma eve_loop_script_eq:
  assumes "i + length qcs \<le> length eve_bases"
  shows "eve_loop_script qcs i eve_bases new_circuits r
           = Inr (new_circuits @ map (\<lambda>k. encode_one
                     (if backend r (backend_pos r + k)
                           (qcs ! k @ [Barrier]
                              @ (if eve_bases ! (i + k) = ''X'' then [HGate] else []))
                      then 1 else 0)
                     (eve_bases ! (i + k))) [0..<length qcs],
                  r\<lparr>backend_pos := backend_pos r + length qcs\<rparr>)"
  using assms
proof (induction qcs arbitrary: i new_circuits r)
  case Nil
  then show ?case by simp
next
  case (Cons qc qcs)
  then have "Suc i + length qcs \<le> length eve_bases" by simp
  note ih = Cons.IH[OF this]
  from Cons.prems have "i < length eve_bases" by simp
  then show ?case
    by (simp add: ih execute_shot_def encode_one_def map_upt_Suc del: upt_Suc)
qed

lemma encode_qubits_map:
  "length bits = n \<Longrightarrow> length bases = n \<Longrightarrow>
   encode_qubits bits bases = map (\<lambda>k. encode_one (bits ! k) (bases ! k)) [0..<n]"
  by (auto simp: encode_qubits_def list_eq_iff_nth_eq)

lemma length_encode_qubits:
  "length bits = m \<Longrightarrow> length bases = m \<Longrightarrow> length (encode_qubits bits bases) = m"
  by (simp add: encode_qubits_def)

section \<open>The eavesdropper\<close>

lemma eve_intercept_eq:
  "eve_intercept circuits r
     = Inr (encode_qubits (eve_results_of circuits r) (eve_bases_of r (length circuits)),
            r\<lparr>coin_pos := coin_pos r + length circuits,
              backend_pos := backend_pos r + length circuits\<rparr>)
   \<and> eve_intercept_script circuits r
     = Inr ((encode_qubits (eve_results_of_script circuits r) (eve_bases_of r (length circuits)),
             eve_bases_of r (length circuits)),
            r\<lparr>coin_pos := coin_pos r + length circuits,
              backend_pos := backend_pos r + length circuits\<rparr>)
   \<and> length (eve_bases_of r (length circuits)) = length circuits
   \<and> length (eve_results_of circuits r) = length circuits
   \<and> length (eve_results_of_script circuits r) = length circuits
   \<and> set (eve_bases_of r (length circuits)) \<subseteq> {''Z'', ''X''}
   \<and> set (eve_results_of circuits r) \<subseteq> {0, 1}
   \<and> set (eve_results_of_script circuits r) \<subseteq> {0, 1}"
proof -
  let ?n = "length circuits"
  let ?eb = "eve_bases_of r ?n"
  let ?r1 = "r\<lparr>coin_pos := coin_pos r + ?n\<rparr>"
  have d: "draw_many choice_ZX ?n r = (?eb, ?r1)"
    by (simp add: draw_many_choice_ZX eve_bases_of_def)
  have len: "length ?eb = ?n" "length (eve_results_of circuits r) = ?n"
    "length (eve_results_of_script circuits r) = ?n"
    by (simp_all add: eve_bases_of_def eve_results_of_def eve_results_of_script_def)
  have enc: "encode_qubits (eve_results_of circuits r) ?eb
               = map (\<lambda>k. encode_one (eve_results_of circuits r ! k) (?eb ! k)) [0..<?n]"
    by (rule encode_qubits_map) (simp_all add: len)
  have enc': "\<dots> = map (\<lambda>k. encode_one
                     (if backend ?r1 (backend_pos ?r1 + k)
                           (circuits ! k @ (if ?eb ! (0 + k) = ''X'' then [HGate] else []))
                      then 1 else 0)
                     (?eb ! (0 + k))) [0..<?n]"
    by (simp add: eve_results_of_def)
  have encs: "encode_qubits (eve_results_of_script circuits r) ?eb
               = map (\<lambda>k. encode_one (eve_results_of_script circuits r ! k) (?eb ! k)) [0..<?n]"
    by (rule encode_qubits_map) (simp_all add: len)
  have encs': "\<dots> = map (\<lambda>k. encode_one
                     (if backend ?r1 (backend_pos ?r1 + k)
                           (circuits ! k @ [Barrier]
                              @ (if ?eb ! (0 + k) = ''X'' then [HGate] else []))
                      then 1 else 0)
                     (?eb ! (0 + k))) [0..<?n]"
    by (simp add: eve_results_of_script_def)
  have l: "0 + length circuits \<le> length ?eb" by (simp add: len)
  have app: "eve_intercept circuits r
     = Inr (encode_qubits (eve_results_of circuits r) ?eb,
            r\<lparr>coin_pos := coin_pos r + ?n, backend_pos := backend_pos r + ?n\<rparr>)"
    unfolding eve_intercept_def d Let_def prod.case eve_loop_eq[OF l] enc enc'
    by simp
  have scr: "eve_intercept_script circuits r
     = Inr ((encode_qubits (eve_results_of_script circuits r) ?eb, ?eb),
            r\<lparr>coin_pos := coin_pos r + ?n, backend_pos := backend_pos r + ?n\<rparr>)"
    unfolding eve_intercept_script_def d Let_def prod.case eve_loop_script_eq[OF l] encs encs'
    by simp
  have s1: "set ?eb \<subseteq> {''Z'', ''X''}"
    by (auto simp: eve_bases_of_def)
  have s2: "set (eve_results_of circuits r) \<subseteq> {0, 1}"
    "set (eve_results_of_script circuits r) \<subseteq> {0, 1}"
    by (auto simp: eve_results_of_def eve_results_of_script_def)
  show ?thesis using app scr len s1 s2 by simp
qed

text \<open>
  Claim C7. \<^verbatim>\<open>eve_intercept\<close> (of both files) never raises. For every circuit it
  draws one new basis, measures the circuit in that basis by one execution of the backend
  (in the script the measured copy carries a barrier before the change of basis), and
  forwards the circuit that \<^verbatim>\<open>encode_qubits\<close> builds for the measured bit in that same
  basis; the script also returns the bases. One draw of Python's generator and one
  execution of the backend are consumed per circuit.
\<close>

theorem eve_intercept_resend:
  "eve_intercept circuits r
     = Inr (encode_qubits (eve_results_of circuits r) (eve_bases_of r (length circuits)),
            r\<lparr>coin_pos := coin_pos r + length circuits,
              backend_pos := backend_pos r + length circuits\<rparr>)
   \<and> eve_intercept_script circuits r
     = Inr ((encode_qubits (eve_results_of_script circuits r) (eve_bases_of r (length circuits)),
             eve_bases_of r (length circuits)),
            r\<lparr>coin_pos := coin_pos r + length circuits,
              backend_pos := backend_pos r + length circuits\<rparr>)
   \<and> length (eve_bases_of r (length circuits)) = length circuits
   \<and> length (eve_results_of circuits r) = length circuits
   \<and> length (eve_results_of_script circuits r) = length circuits
   \<and> set (eve_bases_of r (length circuits)) \<subseteq> {''Z'', ''X''}
   \<and> set (eve_results_of circuits r) \<subseteq> {0, 1}
   \<and> set (eve_results_of_script circuits r) \<subseteq> {0, 1}"
  by (rule eve_intercept_eq)

section \<open>The run on a number of qubits that is not positive\<close>

lemma run_simulation_no_trial:
  assumes "n \<le> 0"
  shows "run_simulation n eve_present r
           = Inr (\<lparr>out_alice_bits = [], out_alice_bases = [], out_bob_bases = [],
                   out_bob_results = [], out_key_a = [], out_key_b = [],
                   out_qber = 0, out_verdict = SecureLikely\<rparr>, r)"
  using assms
  by (simp add: run_simulation_def create_bits_bases_def encode_qubits_def eve_intercept_def
      measure_qubits_def sift_keys_def calculate_qber_def classify_def)

text \<open>
  Claim C8, as amended. Nothing checks \<open>n\<close>: for \<open>n \<le> 0\<close> the run raises no error; it
  executes no trial, draws nothing from Python's generator, executes nothing on the
  backend and completes with empty records, empty keys, the rate 0 and the verdict of a
  secure communication. (The slider of app.py offers 10 to 200 only, and the script fixes
  \<open>n = 100\<close>.)
\<close>

theorem no_rejection_of_nonpositive_n:
  assumes "n \<le> 0"
  shows "run_simulation n eve_present r
           = Inr (\<lparr>out_alice_bits = [], out_alice_bases = [], out_bob_bases = [],
                   out_bob_results = [], out_key_a = [], out_key_b = [],
                   out_qber = 0, out_verdict = SecureLikely\<rparr>, r)
         \<and> create_bits_bases n r = (([], []), r)
         \<and> create_alice_bits n r = (([], []), r)"
  using assms run_simulation_no_trial[OF assms]
  by (simp add: create_bits_bases_def create_alice_bits_def)

text \<open>
  The theorem at \<open>n = -3\<close>.
\<close>

theorem no_rejection_of_nonpositive_n_witness:
  "run_simulation (- 3) True
     \<lparr>coin = (\<lambda>k. even k), coin_pos = 0, backend = (\<lambda>k qc. odd k), backend_pos = 0\<rparr>
     = Inr (\<lparr>out_alice_bits = [], out_alice_bases = [], out_bob_bases = [],
             out_bob_results = [], out_key_a = [], out_key_b = [],
             out_qber = 0, out_verdict = SecureLikely\<rparr>,
            \<lparr>coin = (\<lambda>k. even k), coin_pos = 0, backend = (\<lambda>k qc. odd k), backend_pos = 0\<rparr>)"
  using no_rejection_of_nonpositive_n
    [of "- 3" True
        "\<lparr>coin = (\<lambda>k. even k), coin_pos = 0, backend = (\<lambda>k qc. odd k), backend_pos = 0\<rparr>"]
  by simp

text \<open>
  The claim as it is written fails at \<open>n = 0\<close>: the run raises nothing and returns its
  (empty) results.
\<close>

theorem run_rejects_nonpositive_n_counterexample:
  "\<not> (\<exists>e. run_simulation 0 False
              \<lparr>coin = (\<lambda>k. even k), coin_pos = 0, backend = (\<lambda>k qc. odd k), backend_pos = 0\<rparr>
            = Inl e)
   \<and> run_simulation 0 False
        \<lparr>coin = (\<lambda>k. even k), coin_pos = 0, backend = (\<lambda>k qc. odd k), backend_pos = 0\<rparr>
     = Inr (\<lparr>out_alice_bits = [], out_alice_bases = [], out_bob_bases = [],
             out_bob_results = [], out_key_a = [], out_key_b = [],
             out_qber = 0, out_verdict = SecureLikely\<rparr>,
            \<lparr>coin = (\<lambda>k. even k), coin_pos = 0, backend = (\<lambda>k qc. odd k), backend_pos = 0\<rparr>)"
  by (simp add: run_simulation_def create_bits_bases_def encode_qubits_def eve_intercept_def
      measure_qubits_def sift_keys_def calculate_qber_def classify_def)

section \<open>Two runs from the same seed\<close>

lemma same_coins_refl: "same_coins r r"
  by (simp add: same_coins_def)

lemma same_shots_refl: "same_shots r r"
  by (simp add: same_shots_def)

lemma same_coins_coin: "same_coins r r' \<Longrightarrow> coin r (coin_pos r + k) = coin r' (coin_pos r' + k)"
  by (simp add: same_coins_def)

lemma same_shots_backend:
  "same_shots r r' \<Longrightarrow> backend r (backend_pos r + k) qc = backend r' (backend_pos r' + k) qc"
  by (simp add: same_shots_def)

lemma same_coins_coin_shift:
  "same_coins r r' \<Longrightarrow>
   same_coins (r\<lparr>coin_pos := coin_pos r + a\<rparr>) (r'\<lparr>coin_pos := coin_pos r' + a\<rparr>)"
  by (simp add: same_coins_def add.assoc)

lemma same_coins_backend_upd [simp]:
  "same_coins (r\<lparr>backend_pos := a\<rparr>) (r'\<lparr>backend_pos := b\<rparr>) = same_coins r r'"
  by (simp add: same_coins_def)

lemma same_shots_coin_upd [simp]:
  "same_shots (r\<lparr>coin_pos := a\<rparr>) (r'\<lparr>coin_pos := b\<rparr>) = same_shots r r'"
  by (simp add: same_shots_def)

lemma same_shots_backend_shift:
  "same_shots r r' \<Longrightarrow>
   same_shots (r\<lparr>backend_pos := backend_pos r + a\<rparr>) (r'\<lparr>backend_pos := backend_pos r' + a\<rparr>)"
  by (simp add: same_shots_def add.assoc)

lemma draw_randint01_same:
  assumes "same_coins r r'"
  shows "\<exists>v s s'. draw_many randint01 m r = (v, s) \<and> draw_many randint01 m r' = (v, s')
           \<and> same_coins s s' \<and> (same_shots r r' \<longrightarrow> same_shots s s') \<and> length v = m"
  using same_coins_coin[OF assms] same_coins_coin_shift[OF assms]
  by (simp add: draw_many_randint01)

lemma draw_choice_same:
  assumes "same_coins r r'"
  shows "\<exists>v s s'. draw_many choice_ZX m r = (v, s) \<and> draw_many choice_ZX m r' = (v, s')
           \<and> same_coins s s' \<and> (same_shots r r' \<longrightarrow> same_shots s s') \<and> length v = m"
  using same_coins_coin[OF assms] same_coins_coin_shift[OF assms]
  by (simp add: draw_many_choice_ZX)

lemma measure_qubits_same:
  assumes "same_coins r r'" and "length qcs \<le> length bases" and "length qcs' = length qcs"
  shows "\<exists>v v' s s'. measure_qubits qcs bases r = Inr (v, s)
           \<and> measure_qubits qcs' bases r' = Inr (v', s')
           \<and> same_coins s s' \<and> length v = length qcs \<and> length v' = length qcs
           \<and> (same_shots r r' \<longrightarrow> qcs' = qcs \<longrightarrow> v' = v \<and> same_shots s s')"
  using assms same_shots_backend[of r r'] same_shots_backend_shift[of r r' "length qcs"]
  by (simp add: measure_qubits_def measure_loop_eq)

lemma eve_same:
  assumes "same_coins r r'"
  shows "eve_bases_of r n = eve_bases_of r' n"
    and "same_shots r r' \<Longrightarrow> eve_results_of qcs r = eve_results_of qcs r'"
    and "same_shots r r' \<Longrightarrow> eve_results_of_script qcs r = eve_results_of_script qcs r'"
proof -
  show e: "eve_bases_of r n = eve_bases_of r' n" for n
    using same_coins_coin[OF assms] by (simp add: eve_bases_of_def)
  show "eve_results_of qcs r = eve_results_of qcs r'" if "same_shots r r'"
    using same_shots_backend[OF that] e[of "length qcs"] by (simp add: eve_results_of_def)
  show "eve_results_of_script qcs r = eve_results_of_script qcs r'" if "same_shots r r'"
    using same_shots_backend[OF that] e[of "length qcs"] by (simp add: eve_results_of_script_def)
qed

lemma eve_shift_same:
  assumes "same_coins r r'"
  shows "same_coins (r\<lparr>coin_pos := coin_pos r + a, backend_pos := backend_pos r + b\<rparr>)
           (r'\<lparr>coin_pos := coin_pos r' + a, backend_pos := backend_pos r' + b\<rparr>)"
    and "same_shots r r' \<Longrightarrow>
         same_shots (r\<lparr>coin_pos := coin_pos r + a, backend_pos := backend_pos r + b\<rparr>)
           (r'\<lparr>coin_pos := coin_pos r' + a, backend_pos := backend_pos r' + b\<rparr>)"
  using assms by (simp_all add: same_coins_def same_shots_def add.assoc)

lemma eve_intercept_same:
  assumes "same_coins r r'"
  shows "\<exists>v v' s s'. eve_intercept qcs r = Inr (v, s) \<and> eve_intercept qcs r' = Inr (v', s')
           \<and> same_coins s s' \<and> length v = length qcs \<and> length v' = length qcs
           \<and> (same_shots r r' \<longrightarrow> v' = v \<and> same_shots s s')"
proof -
  have l: "length (encode_qubits (eve_results_of qcs r) (eve_bases_of r (length qcs))) = length qcs"
    "length (encode_qubits (eve_results_of qcs r') (eve_bases_of r' (length qcs))) = length qcs"
    using eve_intercept_eq[of qcs r] eve_intercept_eq[of qcs r']
    by (simp_all add: encode_qubits_def)
  show ?thesis
    using eve_intercept_eq[of qcs r] eve_intercept_eq[of qcs r'] l
      eve_same(1)[OF assms, of "length qcs"] eve_same(2)[OF assms, of qcs]
      eve_shift_same[OF assms, of "length qcs" "length qcs"]
    by simp
qed

lemma eve_intercept_script_same:
  assumes "same_coins r r'"
  shows "\<exists>v v' w s s'. eve_intercept_script qcs r = Inr ((v, w), s)
           \<and> eve_intercept_script qcs r' = Inr ((v', w), s')
           \<and> same_coins s s' \<and> length v = length qcs \<and> length v' = length qcs
           \<and> (same_shots r r' \<longrightarrow> v' = v \<and> same_shots s s')"
proof -
  have l: "length (encode_qubits (eve_results_of_script qcs r) (eve_bases_of r (length qcs))) = length qcs"
    "length (encode_qubits (eve_results_of_script qcs r') (eve_bases_of r' (length qcs))) = length qcs"
    using eve_intercept_eq[of qcs r] eve_intercept_eq[of qcs r']
    by (simp_all add: encode_qubits_def)
  show ?thesis
    using eve_intercept_eq[of qcs r] eve_intercept_eq[of qcs r'] l
      eve_same(1)[OF assms, of "length qcs"] eve_same(3)[OF assms, of qcs]
      eve_shift_same[OF assms, of "length qcs" "length qcs"]
    by simp
qed

lemma run_simulation_same:
  assumes "same_coins r r'"
  shows "\<exists>out out' s s'. run_simulation n e r = Inr (out, s) \<and> run_simulation n e r' = Inr (out', s')
           \<and> out_alice_bits out' = out_alice_bits out
           \<and> out_alice_bases out' = out_alice_bases out
           \<and> out_bob_bases out' = out_bob_bases out
           \<and> out_key_a out' = out_key_a out
           \<and> same_coins s s'
           \<and> (same_shots r r' \<longrightarrow> out' = out \<and> same_shots s s')
           \<and> length (out_alice_bits out) = nat n \<and> length (out_alice_bases out) = nat n
           \<and> length (out_bob_bases out) = nat n \<and> length (out_bob_results out) = nat n
           \<and> out_key_a out = map (\<lambda>i. out_alice_bits out ! i)
                                (kept_trials (out_alice_bases out) (out_bob_bases out))
           \<and> out_key_b out = map (\<lambda>i. out_bob_results out ! i)
                                (kept_trials (out_alice_bases out) (out_bob_bases out))
           \<and> calculate_qber (out_key_a out) (out_key_b out) = Inr (out_qber out)
           \<and> out_verdict out = classify (out_qber out)"
proof -
  define m where "m = nat n"
  from draw_randint01_same[OF assms, of m] obtain a_bits r1 r1' where
    d1: "draw_many randint01 m r = (a_bits, r1)" "draw_many randint01 m r' = (a_bits, r1')"
    and s1: "same_coins r1 r1'" and t1: "same_shots r r' \<longrightarrow> same_shots r1 r1'"
    and l1: "length a_bits = m" by blast
  from draw_choice_same[OF s1, of m] obtain a_bases r2 r2' where
    d2: "draw_many choice_ZX m r1 = (a_bases, r2)" "draw_many choice_ZX m r1' = (a_bases, r2')"
    and s2: "same_coins r2 r2'" and t2: "same_shots r1 r1' \<longrightarrow> same_shots r2 r2'"
    and l2: "length a_bases = m" by blast
  from draw_choice_same[OF s2, of m] obtain b_bases r3 r3' where
    d3: "draw_many choice_ZX m r2 = (b_bases, r3)" "draw_many choice_ZX m r2' = (b_bases, r3')"
    and s3: "same_coins r3 r3'" and t3: "same_shots r2 r2' \<longrightarrow> same_shots r3 r3'"
    and l3: "length b_bases = m" by blast
  let ?enc = "encode_qubits a_bits a_bases"
  have lenc: "length ?enc = m" by (rule length_encode_qubits[OF l1 l2])
  have "\<exists>sent sent' r4 r4'.
            (if e then eve_intercept ?enc r3 else Inr (?enc, r3)) = Inr (sent, r4)
          \<and> (if e then eve_intercept ?enc r3' else Inr (?enc, r3')) = Inr (sent', r4')
          \<and> same_coins r4 r4' \<and> length sent = m \<and> length sent' = m
          \<and> (same_shots r3 r3' \<longrightarrow> sent' = sent \<and> same_shots r4 r4')"
    using eve_intercept_same[OF s3, of ?enc] s3 lenc by (cases e) auto
  then obtain sent sent' r4 r4' where
    ev: "(if e then eve_intercept ?enc r3 else Inr (?enc, r3)) = Inr (sent, r4)"
        "(if e then eve_intercept ?enc r3' else Inr (?enc, r3')) = Inr (sent', r4')"
    and s4: "same_coins r4 r4'" and l4: "length sent = m" "length sent' = m"
    and t4: "same_shots r3 r3' \<longrightarrow> sent' = sent \<and> same_shots r4 r4'" by blast
  from l3 l4 have "length sent \<le> length b_bases" "length sent' = length sent" by simp_all
  from measure_qubits_same[OF s4 this] obtain b_results b_results' r5 r5' where
    me: "measure_qubits sent b_bases r4 = Inr (b_results, r5)"
        "measure_qubits sent' b_bases r4' = Inr (b_results', r5')"
    and s5: "same_coins r5 r5'"
    and l5: "length b_results = length sent" "length b_results' = length sent"
    and t5: "same_shots r4 r4' \<longrightarrow> sent' = sent \<longrightarrow> b_results' = b_results \<and> same_shots r5 r5'"
    by blast
  let ?K = "kept_trials a_bases b_bases"
  let ?ka = "map (\<lambda>i. a_bits ! i) ?K"
  let ?kb = "\<lambda>res. map (\<lambda>i. res ! i) ?K"
  have sift: "sift_keys a_bases b_bases a_bits res = Inr (?ka, ?kb res)" if "length res = m" for res :: "int list"
    by (rule sift_keys_eq) (simp_all add: l1 l2 l3 that)
  let ?q = "\<lambda>res. if ?ka \<noteq> [] then real (error_count ?ka (?kb res)) / real (length ?ka) else 0"
  have q: "calculate_qber ?ka (?kb res) = Inr (?q res)" for res
    by (rule calculate_qber_eq)
  let ?out = "\<lambda>res. \<lparr>out_alice_bits = a_bits, out_alice_bases = a_bases,
                out_bob_bases = b_bases, out_bob_results = res,
                out_key_a = ?ka, out_key_b = ?kb res,
                out_qber = ?q res, out_verdict = classify (?q res)\<rparr>"
  have lr: "length b_results = m" "length b_results' = m" using l4 l5 by simp_all
  have run: "run_simulation n e r = Inr (?out b_results, r5)"
    unfolding run_simulation_def create_bits_bases_def m_def[symmetric]
    by (simp only: d1 d2 d3 Let_def prod.case ev me sift[OF lr(1)] q sum.case)
  have run': "run_simulation n e r' = Inr (?out b_results', r5')"
    unfolding run_simulation_def create_bits_bases_def m_def[symmetric]
    by (simp only: d1 d2 d3 Let_def prod.case ev me sift[OF lr(2)] q sum.case)
  have full: "same_shots r r' \<longrightarrow> ?out b_results' = ?out b_results \<and> same_shots r5 r5'"
    using t1 t2 t3 t4 t5 by simp
  show ?thesis
    using run run' s5 full l1 l2 l3 lr q[of b_results]
    by (simp add: m_def)
qed

lemma main_script_same:
  assumes "same_coins r r'"
  shows "\<exists>out out' s s'. main_script r = Inr (out, s) \<and> main_script r' = Inr (out', s')
           \<and> out_alice_bits out' = out_alice_bits out
           \<and> out_alice_bases out' = out_alice_bases out
           \<and> out_bob_bases out' = out_bob_bases out
           \<and> out_key_a out' = out_key_a out
           \<and> same_coins s s'
           \<and> (same_shots r r' \<longrightarrow> out' = out \<and> same_shots s s')
           \<and> length (out_alice_bits out) = 100
           \<and> out_verdict out = classify (out_qber out)"
proof -
  define m :: nat where "m = nat 100"
  from draw_randint01_same[OF assms, of m] obtain a_bits r1 r1' where
    d1: "draw_many randint01 m r = (a_bits, r1)" "draw_many randint01 m r' = (a_bits, r1')"
    and s1: "same_coins r1 r1'" and t1: "same_shots r r' \<longrightarrow> same_shots r1 r1'"
    and l1: "length a_bits = m" by blast
  from draw_choice_same[OF s1, of m] obtain a_bases r2 r2' where
    d2: "draw_many choice_ZX m r1 = (a_bases, r2)" "draw_many choice_ZX m r1' = (a_bases, r2')"
    and s2: "same_coins r2 r2'" and t2: "same_shots r1 r1' \<longrightarrow> same_shots r2 r2'"
    and l2: "length a_bases = m" by blast
  let ?enc = "encode_qubits a_bits a_bases"
  have lenc: "length ?enc = m" by (rule length_encode_qubits[OF l1 l2])
  from eve_intercept_script_same[OF s2, of ?enc] obtain sent sent' eve_bases r3 r3' where
    ev: "eve_intercept_script ?enc r2 = Inr ((sent, eve_bases), r3)"
        "eve_intercept_script ?enc r2' = Inr ((sent', eve_bases), r3')"
    and s3: "same_coins r3 r3'" and l3': "length sent = length ?enc" "length sent' = length ?enc"
    and t3: "same_shots r2 r2' \<longrightarrow> sent' = sent \<and> same_shots r3 r3'" by blast
  from l3' lenc have l3: "length sent = m" "length sent' = m" by simp_all
  from draw_choice_same[OF s3, of m] obtain b_bases r4 r4' where
    d4: "draw_many choice_ZX m r3 = (b_bases, r4)" "draw_many choice_ZX m r3' = (b_bases, r4')"
    and s4: "same_coins r4 r4'" and t4: "same_shots r3 r3' \<longrightarrow> same_shots r4 r4'"
    and l4: "length b_bases = m" by blast
  from l3 l4 have "length sent \<le> length b_bases" "length sent' = length sent" by simp_all
  from measure_qubits_same[OF s4 this] obtain b_results b_results' r5 r5' where
    me: "measure_qubits sent b_bases r4 = Inr (b_results, r5)"
        "measure_qubits sent' b_bases r4' = Inr (b_results', r5')"
    and s5: "same_coins r5 r5'"
    and l5: "length b_results = length sent" "length b_results' = length sent"
    and t5: "same_shots r4 r4' \<longrightarrow> sent' = sent \<longrightarrow> b_results' = b_results \<and> same_shots r5 r5'"
    by blast
  let ?K = "kept_trials a_bases b_bases"
  let ?ka = "map (\<lambda>i. a_bits ! i) ?K"
  let ?kb = "\<lambda>res. map (\<lambda>i. res ! i) ?K"
  have sift: "sift_keys_script a_bases b_bases a_bits res = Inr (?ka, ?kb res, ?K)"
    if "length res = m" for res :: "int list"
    by (rule sift_keys_script_eq) (simp_all add: l1 l2 l4 that)
  let ?q = "\<lambda>res. if ?ka \<noteq> [] then real (error_count ?ka (?kb res)) / real (length ?ka) else 0"
  have q: "calculate_qber ?ka (?kb res) = Inr (?q res)" for res
    by (rule calculate_qber_eq)
  let ?out = "\<lambda>res. \<lparr>out_alice_bits = a_bits, out_alice_bases = a_bases,
                out_bob_bases = b_bases, out_bob_results = res,
                out_key_a = ?ka, out_key_b = ?kb res,
                out_qber = ?q res, out_verdict = classify (?q res)\<rparr>"
  have lr: "length b_results = m" "length b_results' = m" using l3 l5 by simp_all
  have run: "main_script r = Inr (?out b_results, r5)"
    unfolding main_script_def create_alice_bits_def
    by (simp only: Let_def m_def[symmetric] d1 d2 d4 prod.case ev me sift[OF lr(1)] q sum.case)
  have run': "main_script r' = Inr (?out b_results', r5')"
    unfolding main_script_def create_alice_bits_def
    by (simp only: Let_def m_def[symmetric] d1 d2 d4 prod.case ev me sift[OF lr(2)] q sum.case)
  have full: "same_shots r r' \<longrightarrow> ?out b_results' = ?out b_results \<and> same_shots r5 r5'"
    using t1 t2 t3 t4 t5 by simp
  show ?thesis
    using run run' s5 full l1
    by (simp add: m_def)
qed

text \<open>
  One qubit with the eavesdropper, twice from the same state of Python's generator: Alice
  encodes 0 in Z, Eve measures in X and reads 0, Bob measures in Z. Eve's qubit is in the
  other basis than Bob's, and the backend reports 1 to Bob in the first run and 0 in the
  second.
\<close>

lemma run_with_eve_disturbed:
  "run_simulation 1 True \<lparr>coin = (\<lambda>k. k = 3), coin_pos = 0, backend = (\<lambda>k qc. k = 1), backend_pos = 0\<rparr>
     = Inr (\<lparr>out_alice_bits = [0], out_alice_bases = [''Z''], out_bob_bases = [''Z''],
             out_bob_results = [1], out_key_a = [0], out_key_b = [1],
             out_qber = 1, out_verdict = EavesdroppingSuspected\<rparr>,
            \<lparr>coin = (\<lambda>k. k = 3), coin_pos = 4, backend = (\<lambda>k qc. k = 1), backend_pos = 2\<rparr>)"
  by (simp add: run_simulation_def create_bits_bases_def draw_many_randint01 draw_many_choice_ZX
        encode_qubits_def encode_one_def eve_intercept_def measure_qubits_def execute_shot_def
        sift_keys_def calculate_qber_def truediv_def classify_def Let_def upt_rec
        randint01_step choice_ZX_step)





section \<open>The threshold on the error rate\<close>

text \<open>
  Claim C5. The verdict is that of suspected eavesdropping if and only if the error rate
  is strictly greater than 0.15, the threshold written in both programs; a rate of
  exactly 0.15 gives the verdict of a secure communication. Every run of the handler and
  of \<^verbatim>\<open>main\<close> completes with the verdict of its own error rate.
\<close>

theorem detection_threshold:
  "(classify qber = EavesdroppingSuspected) = (0.15 < qber)
   \<and> (classify qber = SecureLikely) = (qber \<le> 0.15)
   \<and> classify 0.15 = SecureLikely
   \<and> classify 0.10 = SecureLikely
   \<and> classify 0.20 = EavesdroppingSuspected
   \<and> (\<exists>out s. run_simulation n e r = Inr (out, s) \<and> out_verdict out = classify (out_qber out))
   \<and> (\<exists>out s. main_script r = Inr (out, s) \<and> out_verdict out = classify (out_qber out))"
proof -
  have "\<exists>out s. run_simulation n e r = Inr (out, s) \<and> out_verdict out = classify (out_qber out)"
    using run_simulation_same[OF same_coins_refl[of r], of n e] by blast
  moreover have "\<exists>out s. main_script r = Inr (out, s) \<and> out_verdict out = classify (out_qber out)"
    using main_script_same[OF same_coins_refl[of r]] by blast
  ultimately show ?thesis by (simp add: classify_def)
qed

text \<open>
  The theorem at the rates 1, 0 and 3/20, and at the first run above, whose rate is 1.
\<close>

theorem detection_threshold_witness:
  "classify 1 = EavesdroppingSuspected \<and> classify 0 = SecureLikely
   \<and> classify (3 / 20) = SecureLikely
   \<and> (\<exists>out s. run_simulation 1 True \<lparr>coin = (\<lambda>k. k = 3), coin_pos = 0, backend = (\<lambda>k qc. k = 1), backend_pos = 0\<rparr> = Inr (out, s)
        \<and> out_verdict out = classify (out_qber out) \<and> out_qber out = 1
        \<and> out_verdict out = EavesdroppingSuspected)"
proof -
  have "classify 1 = EavesdroppingSuspected" "classify 0 = SecureLikely"
    "classify (3 / 20) = SecureLikely"
    using detection_threshold[of 1] detection_threshold[of 0] detection_threshold[of "3 / 20"]
    by simp_all
  then show ?thesis using run_with_eve_disturbed by simp
qed

section \<open>Measurement in the other basis\<close>





section \<open>When the backend reports the prepared bit\<close>

text \<open>
  Whether a measurement in the basis of preparation gives back the prepared bit is
  decided by the backend: the circuit it is given is the gate X, when the bit is 1,
  followed by two gates H in the basis X and by none in the basis Z. What the programs add
  is shown here: when the backend reports the prepared bit on these circuits,
  \<^verbatim>\<open>measure_qubits\<close> returns the prepared bits, in order; and when the receiver's results
  agree with the sender's bits at the kept trials, the two sifted keys are equal, the
  error rate is 0 and the verdict is that of a secure communication.
\<close>

lemma nth_encode_qubits:
  "k < length bits \<Longrightarrow> k < length bases \<Longrightarrow>
   encode_qubits bits bases ! k = encode_one (bits ! k) (bases ! k)"
  by (simp add: encode_qubits_def)

lemma measure_same_basis_reported:
  assumes "length bits = length bases"
    and "\<forall>k<length bits.
           (if backend r (backend_pos r + k)
                 (encode_one (bits ! k) (bases ! k) @ (if bases ! k = ''X'' then [HGate] else []))
            then 1 else 0) = bits ! k"
  shows "measure_qubits (encode_qubits bits bases) bases r
           = Inr (bits, r\<lparr>backend_pos := backend_pos r + length bits\<rparr>)"
proof -
  define qcs where "qcs = encode_qubits bits bases"
  have lq: "length qcs = length bits"
    unfolding qcs_def by (rule length_encode_qubits) (simp_all add: assms(1))
  have nq: "qcs ! k = encode_one (bits ! k) (bases ! k)" if "k < length bits" for k
    unfolding qcs_def using that assms(1) by (simp add: nth_encode_qubits)
  have l: "0 + length qcs \<le> length bases"
    by (simp add: lq assms(1))
  have "map (\<lambda>k. if backend r (backend_pos r + k)
                     (qcs ! k @ (if bases ! (0 + k) = ''X'' then [HGate] else []))
                  then 1 else 0) [0..<length qcs] = bits"
  proof (rule nth_equalityI)
    show "length (map (\<lambda>k. if backend r (backend_pos r + k)
                     (qcs ! k @ (if bases ! (0 + k) = ''X'' then [HGate] else []))
                  then 1 else 0) [0..<length qcs]) = length bits"
      by (simp add: lq)
  next
    fix k
    assume "k < length (map (\<lambda>k. if backend r (backend_pos r + k)
                     (qcs ! k @ (if bases ! (0 + k) = ''X'' then [HGate] else []))
                  then 1 else 0) [0..<length qcs])"
    then have k: "k < length bits" by (simp add: lq)
    with assms(2) have "(if backend r (backend_pos r + k)
                 (encode_one (bits ! k) (bases ! k) @ (if bases ! k = ''X'' then [HGate] else []))
            then 1 else 0) = bits ! k" by blast
    with k show "map (\<lambda>k. if backend r (backend_pos r + k)
                     (qcs ! k @ (if bases ! (0 + k) = ''X'' then [HGate] else []))
                  then 1 else 0) [0..<length qcs] ! k = bits ! k"
      by (simp add: lq nq)
  qed
  then show ?thesis
    unfolding measure_qubits_def qcs_def[symmetric] measure_loop_eq[OF l]
    by (simp add: lq)
qed

lemma error_count_same: "error_count key key = 0"
  by (simp add: error_count_def zip_same_conv_map filter_map o_def)

lemma agreeing_results_zero_qber:
  assumes "run_simulation n e r = Inr (out, s)"
    and "\<forall>i\<in>set (kept_trials (out_alice_bases out) (out_bob_bases out)).
           out_bob_results out ! i = out_alice_bits out ! i"
  shows "out_key_b out = out_key_a out \<and> out_qber out = 0 \<and> out_verdict out = SecureLikely"
proof -
  from run_simulation_same[OF same_coins_refl[of r], of n e] assms(1) have
    ka: "out_key_a out = map (\<lambda>i. out_alice_bits out ! i)
                           (kept_trials (out_alice_bases out) (out_bob_bases out))"
    and kb: "out_key_b out = map (\<lambda>i. out_bob_results out ! i)
                           (kept_trials (out_alice_bases out) (out_bob_bases out))"
    and q: "calculate_qber (out_key_a out) (out_key_b out) = Inr (out_qber out)"
    and v: "out_verdict out = classify (out_qber out)"
    by auto
  from assms(2) have k: "out_key_b out = out_key_a out"
    by (simp add: ka kb)
  have "calculate_qber (out_key_a out) (out_key_a out) = Inr 0"
    by (simp add: calculate_qber_eq error_count_same)
  with q k have "out_qber out = 0"
    by simp
  with k v show ?thesis by (simp add: classify_def)
qed

end
